theory Spec2Isabelle
  imports Main
begin

section \<open>The host environment of plugin.py\<close>

text \<open>
  plugin.py computes nothing of its own about paths, files or processes: it asks the
  Python standard library (\<^verbatim>\<open>os.path\<close>, \<^verbatim>\<open>os.listdir\<close>, \<^verbatim>\<open>subprocess.check_output\<close>,
  \<^verbatim>\<open>sys.path\<close>) and the editor (\<^verbatim>\<open>sublime.platform()\<close>, \<^verbatim>\<open>sublime.packages_path()\<close>,
  \<^verbatim>\<open>package_storage()\<close>, \<^verbatim>\<open>cls.name()\<close>). These are the fields of the record \<open>host\<close>; every
  function of the plugin takes the host as its first argument, and a theorem about every
  host holds whatever the file system and the external commands are. The file system is
  the same during one call (the plugin's own cache relies on that as well).
\<close>

datatype py_exception =
    FileNotFoundError
  | CalledProcessError
  | ValueError
  | OtherError string

datatype event =
    Print string
  | Invoke "string list" string

record host =
  platform :: string
  plugin_name :: string
  user_home :: string
  path_join :: "string list \<Rightarrow> string"
  dirname :: "string \<Rightarrow> string"
  path_exists :: "string \<Rightarrow> bool"
  lexists :: "string \<Rightarrow> bool"
  isfile :: "string \<Rightarrow> bool"
  isdir :: "string \<Rightarrow> bool"
  listdir :: "string \<Rightarrow> py_exception + string list"
  check_output :: "string list \<Rightarrow> string \<Rightarrow> py_exception + string"
  sys_path :: "string list"
  packages_path :: string
  package_storage :: string

text \<open>
  \<open>user_home\<close> is the module constant \<^verbatim>\<open>USER_HOME\<close>. \<open>path_join\<close> takes the arguments of
  \<^verbatim>\<open>os.path.join\<close> as a list. \<open>path_exists\<close>, \<open>lexists\<close>, \<open>isfile\<close> and \<open>isdir\<close> never
  raise, as in \<^verbatim>\<open>os.path\<close>; \<open>listdir\<close> and \<open>check_output\<close> raise, so they return a sum.
  \<open>check_output h command cwd\<close> is the standard output of the command run in \<open>cwd\<close>
  (\<^verbatim>\<open>universal_newlines=True\<close>); the \<^verbatim>\<open>startupinfo\<close> argument only hides a window.
\<close>

section \<open>Project roots\<close>

definition ROOT_FILES :: "string list" where
  "ROOT_FILES =
    [''.git'', ''poetry.lock'', ''setup.py'', ''dev-requirements.txt'',
     ''requirements-dev.txt'', ''requirements.txt'', ''test-requirements.txt'']"

text \<open>The loop \<^verbatim>\<open>for name in ROOT_FILES\<close> of \<^verbatim>\<open>is_project_root\<close>.\<close>

primrec root_files_loop :: "host \<Rightarrow> string \<Rightarrow> string list \<Rightarrow> bool" where
  "root_files_loop h root [] = False"
| "root_files_loop h root (name # names) =
     (if path_exists h (path_join h [root, name]) then True
      else root_files_loop h root names)"

text \<open>The body of \<^verbatim>\<open>is_project_root\<close>, without its decorator.\<close>

definition is_project_root_body :: "host \<Rightarrow> string \<Rightarrow> bool" where
  "is_project_root_body h root =
     (if root = user_home h then True else root_files_loop h root ROOT_FILES)"

text \<open>
  \<^verbatim>\<open>@lru_cache\<close> keeps the results of the last 128 distinct arguments, the most recently
  used first. A hit returns the stored result and moves the entry to the front; a miss runs
  the body, stores the result and drops the least recently used entry beyond 128.
\<close>

type_synonym root_cache = "(string \<times> bool) list"

definition is_project_root :: "host \<Rightarrow> root_cache \<Rightarrow> string \<Rightarrow> bool \<times> root_cache" where
  "is_project_root h cache root =
     (case map_of cache root of
        Some b \<Rightarrow> (b, (root, b) # filter (\<lambda>e. fst e \<noteq> root) cache)
      | None \<Rightarrow>
          (let b = is_project_root_body h root
           in (b, take 128 ((root, b) # cache))))"

text \<open>A cache holds only what the body returns on this host: true of the empty cache of a
  fresh process, and kept by every call while the file system stays as it is.\<close>

definition cache_ok :: "host \<Rightarrow> root_cache \<Rightarrow> bool" where
  "cache_ok h cache = (\<forall>e \<in> set cache. snd e = is_project_root_body h (fst e))"

section \<open>The upward walk\<close>

text \<open>\<^verbatim>\<open>_venv_path\<close> and \<^verbatim>\<open>_find_venv\<close> lose their leading underscore here. Every function
  that calls the cached \<^verbatim>\<open>is_project_root\<close> takes the cache and returns it.\<close>

definition python_exe :: "host \<Rightarrow> string" where
  "python_exe h = (if platform h \<noteq> ''windows'' then ''python'' else ''python.exe'')"

definition venv_path :: "host \<Rightarrow> string \<Rightarrow> string \<Rightarrow> string option" where
  "venv_path h root venv_name =
     (let venv = path_join h [root, venv_name, ''bin'', python_exe h]
      in if path_exists h venv then Some venv else None)"

text \<open>The \<^verbatim>\<open>while True\<close> loop of \<^verbatim>\<open>_find_venv\<close>. It recurses on a strictly shorter path only.\<close>

function find_venv_loop :: "host \<Rightarrow> root_cache \<Rightarrow> string \<Rightarrow> string option \<times> root_cache" where
  "find_venv_loop h cache root =
     (case venv_path h root ''venv'' of
        Some venv \<Rightarrow> (Some venv, cache)
      | None \<Rightarrow>
          (let r = is_project_root h cache root in
           if fst r then (None, snd r)
           else
             (let dirname = dirname h root in
              if length dirname \<ge> length root \<or> dirname = user_home h then (None, snd r)
              else find_venv_loop h (snd r) dirname)))"
  by pat_completeness auto
termination
  by (relation "measure (\<lambda>(h, cache, root). length root)") auto

definition find_venv :: "host \<Rightarrow> root_cache \<Rightarrow> string \<Rightarrow> string option \<times> root_cache" where
  "find_venv h cache root =
     (if \<not> lexists h root then (None, cache) else find_venv_loop h cache root)"

text \<open>The same loop with a bound on the number of times its body may run: \<open>None\<close> when
  the bound is used up before the loop returns.\<close>

primrec find_venv_fuel ::
  "nat \<Rightarrow> host \<Rightarrow> root_cache \<Rightarrow> string \<Rightarrow> (string option \<times> root_cache) option" where
  "find_venv_fuel 0 h cache root = None"
| "find_venv_fuel (Suc n) h cache root =
     (case venv_path h root ''venv'' of
        Some venv \<Rightarrow> Some (Some venv, cache)
      | None \<Rightarrow>
          (let r = is_project_root h cache root in
           if fst r then Some (None, snd r)
           else
             (let dirname = dirname h root in
              if length dirname \<ge> length root \<or> dirname = user_home h then Some (None, snd r)
              else find_venv_fuel n h (snd r) dirname)))"

section \<open>Strings\<close>

text \<open>
  A \<open>string\<close> is a list of characters with code points below 256.
  \<^verbatim>\<open>str.strip()\<close> removes white space at both ends: among these characters that is tab
  to carriage return, the four separators 28 to 31, the space, the next-line character 133
  and the no-break space 160.
\<close>

definition py_isspace :: "char \<Rightarrow> bool" where
  "py_isspace c =
     (let n = (of_char c :: nat) in
        (9 \<le> n \<and> n \<le> 13) \<or> (28 \<le> n \<and> n \<le> 32) \<or> n = 133 \<or> n = 160)"

definition strip :: "string \<Rightarrow> string" where
  "strip s = rev (dropWhile py_isspace (rev (dropWhile py_isspace s)))"

text \<open>\<^verbatim>\<open>sep.join(parts)\<close>.\<close>

fun str_join :: "string \<Rightarrow> string list \<Rightarrow> string" where
  "str_join sep [] = []"
| "str_join sep [x] = x"
| "str_join sep (x # y # ys) = x @ sep @ str_join sep (y # ys)"

text \<open>\<^verbatim>\<open>shlex.quote\<close>: a word of letters, digits and \<^verbatim>\<open>_@%+=:,./-\<close> is left as it is; any
  other word is put between single quotes, each single quote of its own written as
  quote, double-quoted quote, quote.\<close>

definition shlex_safe :: "char \<Rightarrow> bool" where
  "shlex_safe c =
     (let n = (of_char c :: nat) in
        (48 \<le> n \<and> n \<le> 57) \<or> (65 \<le> n \<and> n \<le> 90) \<or> (97 \<le> n \<and> n \<le> 122)
        \<or> c \<in> set ''_@%+=:,./-'')"

definition shlex_quote :: "string \<Rightarrow> string" where
  "shlex_quote s =
     (if s = [] then [CHR 0x27, CHR 0x27]
      else if list_all shlex_safe s then s
      else [CHR 0x27]
           @ concat (map (\<lambda>c. if c = CHR 0x27
                                then [CHR 0x27, CHR 0x22, CHR 0x27, CHR 0x22, CHR 0x27]
                                else [c]) s)
           @ [CHR 0x27])"

section \<open>Resolving the interpreter\<close>

text \<open>
  The settings are read with \<^verbatim>\<open>settings.get(key)\<close> and a dotted key: a map from keys to
  values, \<open>None\<close> for a key that is not set. The resolver is declared to return
  \<^verbatim>\<open>Optional[str]\<close> and returns the value of \<^verbatim>\<open>python.pythonPath\<close> as it is, so that value is
  a string. A workspace folder has a name and a path; only the path is read.
\<close>

type_synonym settings = "string \<Rightarrow> string option"

record workspace_folder =
  name :: string
  path :: string

text \<open>Python's truth value of an optional string: \<^verbatim>\<open>None\<close> and the empty string are
  false.\<close>

fun truthy :: "string option \<Rightarrow> bool" where
  "truthy None = False"
| "truthy (Some s) = (s \<noteq> [])"

datatype 'a outcome =
    Fallthrough
  | Return 'a
  | Raise py_exception

definition emit :: "event list \<Rightarrow> event list \<times> 'a \<Rightarrow> event list \<times> 'a" where
  "emit evs r = (evs @ fst r, snd r)"

definition binary_from_python_path :: "host \<Rightarrow> string \<Rightarrow> string option" where
  "binary_from_python_path h p =
     (let binary_path =
        (if platform h = ''windows'' then path_join h [p, ''Scripts'', ''python.exe'']
         else path_join h [p, ''bin'', ''python''])
      in if isfile h binary_path then Some binary_path else None)"

type_synonym venv_config_rule =
  "string \<times> string list \<times> (string \<Rightarrow> string option) option"

definition venv_config_files :: "host \<Rightarrow> venv_config_rule list" where
  "venv_config_files h =
     [(''Pipfile'', [''pipenv'', ''--py''], None),
      (''poetry.lock'', [''poetry'', ''env'', ''info'', ''-p''], Some (binary_from_python_path h)),
      (''.python-version'', [''pyenv'', ''which'', ''python''], None)]"

definition warn_not_found :: "host \<Rightarrow> string \<Rightarrow> string \<Rightarrow> string" where
  "warn_not_found h config_file command0 =
     plugin_name h @ '': WARN: '' @ config_file @ '' detected but '' @ command0 @ '' not found''"

definition warn_exit_status :: "host \<Rightarrow> string \<Rightarrow> string list \<Rightarrow> string" where
  "warn_exit_status h config_file command =
     plugin_name h @ '': WARN: '' @ config_file @ '' detected but ''
       @ str_join '' '' (map shlex_quote command) @ '' exited with non-zero exit status''"

text \<open>
  The loop \<^verbatim>\<open>for config_file, command, post_processing in venv_config_files\<close>. A command
  that returns ends the whole resolver with what the post-processing gives, \<^verbatim>\<open>None\<close>
  included; the two exceptions caught print a warning and go on; any other exception
  leaves the resolver. \<^verbatim>\<open>command[0]\<close> of an empty command raises inside the handler.
\<close>

fun venv_config_loop ::
  "host \<Rightarrow> string \<Rightarrow> venv_config_rule list \<Rightarrow> event list \<times> string option outcome" where
  "venv_config_loop h workspace_folder [] = ([], Fallthrough)"
| "venv_config_loop h workspace_folder ((config_file, command, post_processing) # rules) =
     (let full_config_file_path = path_join h [workspace_folder, config_file] in
      if isfile h full_config_file_path then
        (case check_output h command workspace_folder of
           Inr out \<Rightarrow>
             (let python_path = strip out in
              ([Invoke command workspace_folder],
               Return (case post_processing of
                         Some f \<Rightarrow> f python_path
                       | None \<Rightarrow> Some python_path)))
         | Inl e \<Rightarrow>
             if e = FileNotFoundError then
               (case command of
                  [] \<Rightarrow> ([Invoke command workspace_folder], Raise (OtherError ''IndexError''))
                | command0 # _ \<Rightarrow>
                    emit [Invoke command workspace_folder,
                          Print (warn_not_found h config_file command0)]
                      (venv_config_loop h workspace_folder rules))
             else if e = CalledProcessError then
               emit [Invoke command workspace_folder,
                     Print (warn_exit_status h config_file command)]
                 (venv_config_loop h workspace_folder rules)
             else ([Invoke command workspace_folder], Raise e))
      else venv_config_loop h workspace_folder rules)"

definition binary_from_venv :: "host \<Rightarrow> string \<Rightarrow> string \<Rightarrow> string option" where
  "binary_from_venv h root child =
     (if isfile h (path_join h [root, child, ''pyvenv.cfg''])
      then binary_from_python_path h (path_join h [root, child])
      else None)"

text \<open>The loop \<^verbatim>\<open>for file in ["venv", ".venv"]\<close>.\<close>

primrec venv_names_loop :: "host \<Rightarrow> string \<Rightarrow> string list \<Rightarrow> string option" where
  "venv_names_loop h workspace_folder [] = None"
| "venv_names_loop h workspace_folder (file # files) =
     (case binary_from_venv h workspace_folder file of
        Some binary \<Rightarrow> Some binary
      | None \<Rightarrow> venv_names_loop h workspace_folder files)"

text \<open>The loop \<^verbatim>\<open>for file in os.listdir(workspace_folder)\<close>.\<close>

primrec listdir_loop :: "host \<Rightarrow> string \<Rightarrow> string list \<Rightarrow> string option" where
  "listdir_loop h workspace_folder [] = None"
| "listdir_loop h workspace_folder (file # files) =
     (if file \<in> {''venv'', ''.venv''} then listdir_loop h workspace_folder files
      else
        (case binary_from_venv h workspace_folder file of
           Some binary \<Rightarrow> Some binary
         | None \<Rightarrow> listdir_loop h workspace_folder files))"

text \<open>Lines 248 to 265: the virtual environment as a subfolder of the project.\<close>

definition subfolder_search :: "host \<Rightarrow> string \<Rightarrow> py_exception + string option" where
  "subfolder_search h workspace_folder =
     (case venv_names_loop h workspace_folder [''venv'', ''.venv''] of
        Some binary \<Rightarrow> Inr (Some binary)
      | None \<Rightarrow>
          (case listdir h workspace_folder of
             Inl e \<Rightarrow> Inl e
           | Inr files \<Rightarrow> Inr (listdir_loop h workspace_folder files)))"

definition resolve_python_path_from_venv ::
  "host \<Rightarrow> settings \<Rightarrow> workspace_folder list \<Rightarrow> event list \<times> (py_exception + string option)" where
  "resolve_python_path_from_venv h settings workspace_folders =
     (let python_path = settings ''python.pythonPath'' in
      if truthy python_path then ([], Inr python_path)
      else
        (case workspace_folders of
           [] \<Rightarrow> ([], Inr None)
         | folder # _ \<Rightarrow>
             (let workspace_folder = path folder;
                  r = venv_config_loop h workspace_folder (venv_config_files h)
              in case snd r of
                   Return res \<Rightarrow> (fst r, Inr res)
                 | Raise e \<Rightarrow> (fst r, Inl e)
                 | Fallthrough \<Rightarrow> (fst r, subfolder_search h workspace_folder))))"

text \<open>\<^verbatim>\<open>x or "python"\<close>.\<close>

fun or_python :: "string option \<Rightarrow> string" where
  "or_python None = ''python''"
| "or_python (Some s) = (if s \<noteq> [] then s else ''python'')"

definition on_pre_start ::
  "host \<Rightarrow> settings \<Rightarrow> workspace_folder list \<Rightarrow> event list \<times> (py_exception + settings)" where
  "on_pre_start h settings workspace_folders =
     (let r = resolve_python_path_from_venv h settings workspace_folders in
      case snd r of
        Inl e \<Rightarrow> (fst r, Inl e)
      | Inr res \<Rightarrow>
          (let python_path = or_python res in
           (fst r @ [Print (plugin_name h @ '': Using python path '' @ [CHR 0x22]
                            @ python_path @ [CHR 0x22])],
            Inr (settings(''python.pythonPath'' \<mapsto> python_path)))))"

text \<open>\<^verbatim>\<open>resolve_virtualenv\<close>, which nothing calls: the loop over the folders, then the
  function.\<close>

primrec folders_loop ::
  "host \<Rightarrow> root_cache \<Rightarrow> workspace_folder list \<Rightarrow> string option \<times> root_cache" where
  "folders_loop h cache [] = (None, cache)"
| "folders_loop h cache (folder # folders) =
     (let r = find_venv h cache (path folder) in
      case fst r of
        Some venv \<Rightarrow> (Some venv, snd r)
      | None \<Rightarrow> folders_loop h (snd r) folders)"

definition resolve_virtualenv ::
  "host \<Rightarrow> root_cache \<Rightarrow> settings \<Rightarrow> workspace_folder list \<Rightarrow> string option \<times> root_cache" where
  "resolve_virtualenv h cache settings folders =
     (let python_path = settings ''python.pythonPath'' in
      if truthy python_path then (python_path, cache)
      else folders_loop h cache folders)"

section \<open>Package dependency directories\<close>

text \<open>
  \<^verbatim>\<open>re.sub(r"(python3\.?)[38]", r"\g<1>N", d, flags=re.IGNORECASE)\<close>. \<open>match_python3 s\<close> is the
  match of the pattern at the start of \<open>s\<close>: the text of group 1 and what follows the match.
  After \<^verbatim>\<open>python3\<close> in any case comes a dot and then 3 or 8, or 3 or 8 at once; a dot that
  3 or 8 does not follow gives no match, since the dot is neither 3 nor 8.
\<close>

definition ci_match :: "string \<Rightarrow> string \<Rightarrow> string \<Rightarrow> bool" where
  "ci_match lower upper s =
     (length s = length lower
      \<and> list_all (\<lambda>t. fst t = fst (snd t) \<or> fst t = snd (snd t)) (zip s (zip lower upper)))"

definition match_python3 :: "string \<Rightarrow> (string \<times> string) option" where
  "match_python3 s =
     (if ci_match ''python3'' ''PYTHON3'' (take 7 s) then
        (case drop 7 s of
           [] \<Rightarrow> None
         | c # t \<Rightarrow>
             if c = CHR ''.'' then
               (case t of
                  [] \<Rightarrow> None
                | d # u \<Rightarrow>
                    if d = CHR ''3'' \<or> d = CHR ''8'' then Some (take 8 s, u) else None)
             else if c = CHR ''3'' \<or> c = CHR ''8'' then Some (take 7 s, t)
             else None)
      else None)"

lemma match_python3_shorter:
  assumes "match_python3 s = Some m"
  shows "length (snd m) < length s"
proof -
  have "length t < length s" if "drop 7 s = c # t" for c t
  proof -
    have "length (drop 7 s) = Suc (length t)" using that by simp
    then show ?thesis by simp
  qed
  moreover have "length u < length s" if "drop 7 s = c # d # u" for c d u
  proof -
    have "length (drop 7 s) = Suc (Suc (length u))" using that by simp
    then show ?thesis by simp
  qed
  ultimately show ?thesis
    using assms by (auto simp: match_python3_def split: if_splits list.splits)
qed

text \<open>The substitution scans from the left; after a match it goes on behind the match.\<close>

function re_sub :: "char \<Rightarrow> string \<Rightarrow> string" where
  "re_sub digit s =
     (case match_python3 s of
        Some m \<Rightarrow> fst m @ [digit] @ re_sub digit (snd m)
      | None \<Rightarrow>
          (case s of
             [] \<Rightarrow> []
           | c # cs \<Rightarrow> c # re_sub digit cs))"
  by pat_completeness auto
termination
  by (relation "measure (\<lambda>(digit, s). length s)") (auto simp: match_python3_shorter)

text \<open>\<^verbatim>\<open>dep_dirs.remove(packages_path)\<close> raises \<^verbatim>\<open>ValueError\<close> when the path is not in the
  list, and removes its first occurrence otherwise.\<close>

definition find_package_dependency_dirs :: "host \<Rightarrow> int \<times> int \<Rightarrow> py_exception + string list" where
  "find_package_dependency_dirs h py_ver =
     (let dep_dirs = sys_path h;
          digit = (if py_ver = (3, 8) then CHR ''8'' else CHR ''3'');
          dep_dirs = map (re_sub digit) dep_dirs;
          packages_path = packages_path h
      in if packages_path \<notin> set dep_dirs then Inl ValueError
         else
           (let dep_dirs = remove1 packages_path dep_dirs @ [packages_path];
                dep_dirs =
                  path_join h [package_storage h, ''resources'', ''typings'', ''sublime_text'']
                  # dep_dirs
            in Inr (filter (isdir h) dep_dirs)))"

section \<open>Directories above a path\<close>

text \<open>The parents of a path: \<^verbatim>\<open>os.path.dirname\<close> again and again, as long as it gives a
  strictly shorter path. Their number is the depth of the path.\<close>

function parents :: "host \<Rightarrow> string \<Rightarrow> string list" where
  "parents h root =
     (let d = dirname h root in
      if length d \<ge> length root then [] else d # parents h d)"
  by pat_completeness auto
termination
  by (relation "measure (\<lambda>(h, root). length root)") auto

definition depth :: "host \<Rightarrow> string \<Rightarrow> nat" where
  "depth h root = length (parents h root)"

text \<open>The directories the upward walk can come to: the start, then its parents below the
  user's home directory.\<close>

function walk_dirs :: "host \<Rightarrow> string \<Rightarrow> string list" where
  "walk_dirs h root =
     root # (let d = dirname h root in
             if length d \<ge> length root \<or> d = user_home h then [] else walk_dirs h d)"
  by pat_completeness auto
termination
  by (relation "measure (\<lambda>(h, root). length root)") auto

section \<open>A POSIX host for concrete cases\<close>

text \<open>\<^verbatim>\<open>posixpath.join\<close> and \<^verbatim>\<open>posixpath.dirname\<close> of the standard library, and a host
  whose file system is a list of regular files and a list of directories.\<close>

definition posix_join2 :: "string \<Rightarrow> string \<Rightarrow> string" where
  "posix_join2 a b =
     (if b \<noteq> [] \<and> hd b = CHR ''/'' then b
      else if a = [] \<or> last a = CHR ''/'' then a @ b
      else a @ ''/'' @ b)"

definition posix_join :: "string list \<Rightarrow> string" where
  "posix_join ps = (case ps of [] \<Rightarrow> [] | a # p \<Rightarrow> foldl posix_join2 a p)"

definition posix_dirname :: "string \<Rightarrow> string" where
  "posix_dirname p =
     (let head = rev (dropWhile (\<lambda>c. c \<noteq> CHR ''/'') (rev p)) in
      if head \<noteq> [] \<and> \<not> list_all (\<lambda>c. c = CHR ''/'') head
      then rev (dropWhile (\<lambda>c. c = CHR ''/'') (rev head))
      else head)"

definition posix_host ::
  "string \<Rightarrow> string list \<Rightarrow> string list \<Rightarrow> (string \<Rightarrow> py_exception + string list)
   \<Rightarrow> (string list \<Rightarrow> string \<Rightarrow> py_exception + string) \<Rightarrow> host" where
  "posix_host home files dirs ls run =
     \<lparr>platform = ''linux'', plugin_name = ''LSP-pyright'', user_home = home,
      path_join = posix_join, dirname = posix_dirname,
      path_exists = (\<lambda>p. p \<in> set files \<or> p \<in> set dirs),
      lexists = (\<lambda>p. p \<in> set files \<or> p \<in> set dirs),
      isfile = (\<lambda>p. p \<in> set files),
      isdir = (\<lambda>p. p \<in> set dirs),
      listdir = ls, check_output = run,
      sys_path = [], packages_path = ''/Packages'', package_storage = ''/Storage''\<rparr>"

section \<open>The upward walk as the specification words it\<close>

text \<open>
  The walk of the specification, section 4.2: at the start directory and then at each
  parent, the interpreter of a conventional virtual environment is looked for at the
  relative path of the platform (\<^verbatim>\<open>bin/python\<close>, or \<^verbatim>\<open>Scripts/python.exe\<close> on Windows) in
  the directory \<^verbatim>\<open>venv\<close>; the first directory that has one gives the result, and a project
  root without one ends the walk with no result.
\<close>

definition spec_venv_binary :: "host \<Rightarrow> string \<Rightarrow> string" where
  "spec_venv_binary h d =
     (if platform h = ''windows'' then path_join h [d, ''venv'', ''Scripts'', ''python.exe'']
      else path_join h [d, ''venv'', ''bin'', ''python''])"

definition spec_find_venv :: "host \<Rightarrow> string \<Rightarrow> string option" where
  "spec_find_venv h start =
     (case find (\<lambda>d. path_exists h (spec_venv_binary h d) \<or> is_project_root_body h d)
                (start # parents h start) of
        None \<Rightarrow> None
      | Some d \<Rightarrow>
          if path_exists h (spec_venv_binary h d) then Some (spec_venv_binary h d) else None)"

text \<open>
  The subfolder step as the specification words it: a child of the workspace folder is a
  valid virtual environment when it holds the file \<^verbatim>\<open>pyvenv.cfg\<close> and the interpreter of
  the platform, and that interpreter is its binary.
\<close>

definition spec_binary :: "host \<Rightarrow> string \<Rightarrow> string \<Rightarrow> string" where
  "spec_binary h folder child =
     (if platform h = ''windows''
      then path_join h [path_join h [folder, child], ''Scripts'', ''python.exe'']
      else path_join h [path_join h [folder, child], ''bin'', ''python''])"

definition spec_valid_venv :: "host \<Rightarrow> string \<Rightarrow> string \<Rightarrow> bool" where
  "spec_valid_venv h folder child =
     (isfile h (path_join h [folder, child, ''pyvenv.cfg'']) \<and> isfile h (spec_binary h folder child))"

section \<open>What the entry point can look at\<close>

text \<open>
  The paths whose \<^verbatim>\<open>os.path.isfile\<close> the resolver can ask for, for a workspace folder:
  the marker file of each tool rule in the folder; the interpreter in the directory that
  the command of a rule with post-processing printed; and, for the children \<^verbatim>\<open>venv\<close>,
  \<^verbatim>\<open>.venv\<close> and the entries of the listing of the folder, the file \<^verbatim>\<open>pyvenv.cfg\<close> and the
  interpreter in that child.
\<close>

definition platform_binary :: "host \<Rightarrow> string \<Rightarrow> string" where
  "platform_binary h p =
     (if platform h = ''windows'' then path_join h [p, ''Scripts'', ''python.exe'']
      else path_join h [p, ''bin'', ''python''])"

definition tool_paths :: "host \<Rightarrow> string \<Rightarrow> string list" where
  "tool_paths h folder =
     concat (map (\<lambda>r. path_join h [folder, fst r]
                       # (case snd (snd r) of
                            None \<Rightarrow> []
                          | Some g \<Rightarrow>
                              (case check_output h (fst (snd r)) folder of
                                 Inr out \<Rightarrow> [platform_binary h (strip out)]
                               | Inl e \<Rightarrow> [])))
                 (venv_config_files h))"

definition child_paths :: "host \<Rightarrow> string \<Rightarrow> string list \<Rightarrow> string list" where
  "child_paths h folder children =
     concat (map (\<lambda>c. [path_join h [folder, c, ''pyvenv.cfg''],
                        platform_binary h (path_join h [folder, c])]) children)"

definition listed :: "host \<Rightarrow> string \<Rightarrow> string list" where
  "listed h folder = (case listdir h folder of Inr files \<Rightarrow> files | Inl e \<Rightarrow> [])"

definition inspected_paths :: "host \<Rightarrow> string \<Rightarrow> string list" where
  "inspected_paths h folder =
     tool_paths h folder @ child_paths h folder ([''venv'', ''.venv''] @ listed h folder)"

text \<open>
  Two hosts give the same view of a folder when they agree on what is listed above and on
  the platform, the plugin name, \<^verbatim>\<open>os.path.join\<close>, the outputs of the commands of the rules
  run in the folder, and the listing of the folder. Nothing is asked of
  \<^verbatim>\<open>os.path.dirname\<close>, the home directory, \<^verbatim>\<open>os.path.exists\<close>, \<^verbatim>\<open>os.path.lexists\<close>,
  \<^verbatim>\<open>os.path.isdir\<close>, the files at any other path, or the listing of any other directory.
\<close>

definition same_view :: "host \<Rightarrow> host \<Rightarrow> string \<Rightarrow> bool" where
  "same_view h h' folder =
     (platform h' = platform h \<and> plugin_name h' = plugin_name h \<and> path_join h' = path_join h
      \<and> (\<forall>r \<in> set (venv_config_files h).
            check_output h' (fst (snd r)) folder = check_output h (fst (snd r)) folder)
      \<and> listdir h' folder = listdir h folder
      \<and> (\<forall>p \<in> set (inspected_paths h folder). isfile h' p = isfile h p))"

text \<open>Two rules agree when they have the same marker file and command, the hosts agree on
  that file and on the outcome of that command, and the post-processing of both gives the
  same for the output of the command.\<close>

definition rule_agree ::
  "host \<Rightarrow> host \<Rightarrow> string \<Rightarrow> venv_config_rule \<Rightarrow> venv_config_rule \<Rightarrow> bool" where
  "rule_agree h h' folder r' r =
     (fst r' = fst r \<and> fst (snd r') = fst (snd r)
      \<and> isfile h' (path_join h [folder, fst r]) = isfile h (path_join h [folder, fst r])
      \<and> check_output h' (fst (snd r)) folder = check_output h (fst (snd r)) folder
      \<and> (\<forall>out. check_output h (fst (snd r)) folder = Inr out \<longrightarrow>
            (case snd (snd r') of None \<Rightarrow> Some (strip out) | Some g \<Rightarrow> g (strip out)) =
            (case snd (snd r) of None \<Rightarrow> Some (strip out) | Some g \<Rightarrow> g (strip out))))"

section \<open>Concrete hosts\<close>

text \<open>A home directory \<^verbatim>\<open>/home/u\<close> that holds a virtual environment, and an empty
  directory \<^verbatim>\<open>x\<close> in it.\<close>

definition home_host :: host where
  "home_host = posix_host ''/home/u'' [''/home/u/venv/bin/python'']
          [''/'', ''/home'', ''/home/u'', ''/home/u/x'', ''/home/u/venv'', ''/home/u/venv/bin'']
          (\<lambda>_. Inl FileNotFoundError) (\<lambda>_ _. Inl FileNotFoundError)"

text \<open>A project \<^verbatim>\<open>/w/app\<close> under version control with a virtual environment, and its
  source directory \<^verbatim>\<open>/w/app/src\<close>, which has neither marker nor environment.\<close>

definition walk_host :: host where
  "walk_host = posix_host ''/home/u'' [''/w/app/venv/bin/python'', ''/w/app/src/main.py'']
          [''/'', ''/w'', ''/w/app'', ''/w/app/.git'', ''/w/app/venv'', ''/w/app/venv/bin'',
           ''/w/app/src'']
          (\<lambda>p. if p = ''/w/app/src'' then Inr [''main.py''] else Inl FileNotFoundError)
          (\<lambda>_ _. Inl FileNotFoundError)"

text \<open>A host that differs from \<open>walk_host\<close> everywhere but in the view of
  \<^verbatim>\<open>/w/app/src\<close>: the parent and the grandparent of that folder hold valid virtual
  environments and the parent has a lock file, the home directory is elsewhere, nothing is
  its own parent's child, and every other directory lists a \<^verbatim>\<open>venv\<close>.\<close>

definition moved_host :: host where
  "moved_host =
     (posix_host ''/elsewhere''
        [''/w/app/venv/pyvenv.cfg'', ''/w/app/venv/bin/python'', ''/w/venv/pyvenv.cfg'',
         ''/w/venv/bin/python'', ''/w/app/poetry.lock'', ''/w/app/src/main.py'']
        [''/w/app/src'']
        (\<lambda>p. if p = ''/w/app/src'' then Inr [''main.py''] else Inr [''venv''])
        (\<lambda>_ _. Inl FileNotFoundError))
     \<lparr>dirname := (\<lambda>p. p)\<rparr>"

text \<open>A project \<^verbatim>\<open>/r/proj\<close> under version control without virtual environment, in a
  directory \<^verbatim>\<open>/r\<close> that has one.\<close>

definition boundary_host :: host where
  "boundary_host = posix_host ''/home/u'' [''/r/venv/bin/python'']
          [''/'', ''/r'', ''/r/venv'', ''/r/venv/bin'', ''/r/proj'', ''/r/proj/.git'', ''/r/proj/pkg'']
          (\<lambda>_. Inl FileNotFoundError) (\<lambda>_ _. Inl FileNotFoundError)"

text \<open>A project with \<^verbatim>\<open>poetry.lock\<close> and \<^verbatim>\<open>.python-version\<close> and a valid \<^verbatim>\<open>.venv\<close>. The
  command of poetry prints an environment directory that holds no interpreter; the command
  of pyenv prints an interpreter.\<close>

definition poetry_run :: "string list \<Rightarrow> string \<Rightarrow> py_exception + string" where
  "poetry_run command cwd =
     (if command = [''poetry'', ''env'', ''info'', ''-p''] \<and> cwd = ''/proj''
      then Inr (''/cache/venvs/proj-py3.9'' @ [CHR 0x0A])
      else if command = [''pyenv'', ''which'', ''python''] \<and> cwd = ''/proj''
      then Inr (''/pyenv/versions/3.9/bin/python'' @ [CHR 0x0A])
      else Inl FileNotFoundError)"

definition poetry_host :: host where
  "poetry_host = posix_host ''/home/u''
     [''/proj/poetry.lock'', ''/proj/.python-version'', ''/proj/.venv/pyvenv.cfg'',
      ''/proj/.venv/bin/python'', ''/pyenv/versions/3.9/bin/python'']
     [''/'', ''/proj'', ''/proj/.venv'', ''/proj/.venv/bin'']
     (\<lambda>p. if p = ''/proj'' then Inr [''.python-version'', ''.venv'', ''poetry.lock'']
          else Inl FileNotFoundError)
     poetry_run"

text \<open>The same project without \<^verbatim>\<open>.python-version\<close>, on a machine where no command is
  installed.\<close>

definition no_poetry_host :: host where
  "no_poetry_host = posix_host ''/home/u''
     [''/proj/poetry.lock'', ''/proj/.venv/pyvenv.cfg'', ''/proj/.venv/bin/python'']
     [''/'', ''/proj'', ''/proj/.venv'', ''/proj/.venv/bin'']
     (\<lambda>p. if p = ''/proj'' then Inr [''.venv'', ''poetry.lock''] else Inl FileNotFoundError)
     (\<lambda>_ _. Inl FileNotFoundError)"

text \<open>A project without lock files: \<^verbatim>\<open>venv\<close> lacks \<^verbatim>\<open>pyvenv.cfg\<close>, and two other children
  are valid virtual environments.\<close>

definition listing_host :: host where
  "listing_host = posix_host ''/home/u''
     [''/proj/README.md'', ''/proj/venv/bin/python'', ''/proj/env39/pyvenv.cfg'',
      ''/proj/env39/bin/python'', ''/proj/zz/pyvenv.cfg'', ''/proj/zz/bin/python'']
     [''/'', ''/proj'', ''/proj/venv'', ''/proj/venv/bin'', ''/proj/env39'', ''/proj/env39/bin'',
      ''/proj/zz'', ''/proj/zz/bin'']
     (\<lambda>p. if p = ''/proj'' then Inr [''README.md'', ''venv'', ''env39'', ''zz'']
          else Inl FileNotFoundError)
     (\<lambda>_ _. Inl FileNotFoundError)"

text \<open>An editor whose module search path holds its Python 3.3 library and the
  \<^verbatim>\<open>Packages\<close> directory; the Python 3.8 library is installed, the site packages are not.\<close>

definition dep_host :: host where
  "dep_host =
     (posix_host ''/home/u'' []
        [''/Storage/resources/typings/sublime_text'', ''/opt/st/Lib/python3.8'', ''/Packages'']
        (\<lambda>_. Inl FileNotFoundError) (\<lambda>_ _. Inl FileNotFoundError))
     \<lparr>sys_path := [''/opt/st/Lib/python3.3'', ''/Packages'', ''/opt/st/Lib/python33/site-packages'']\<rparr>"

definition proj :: "workspace_folder list" where
  "proj = [\<lparr>name = ''proj'', path = ''/proj''\<rparr>]"

definition src :: "workspace_folder list" where
  "src = [\<lparr>name = ''src'', path = ''/w/app/src''\<rparr>]"

lemmas posix_simps =
  posix_host_def posix_join_def posix_join2_def posix_dirname_def

lemmas walk_simps =
  find_venv_def venv_path_def python_exe_def is_project_root_def is_project_root_body_def
  ROOT_FILES_def

lemmas resolver_simps =
  resolve_python_path_from_venv_def venv_config_files_def binary_from_python_path_def
  binary_from_venv_def subfolder_search_def emit_def warn_not_found_def warn_exit_status_def
  strip_def py_isspace_def shlex_quote_def shlex_safe_def Let_def

lemmas re_simps = re_sub.simps match_python3_def ci_match_def

section \<open>Facts about the project-root cache and the upward walk\<close>

declare find_venv_loop.simps [simp del]
declare walk_dirs.simps [simp del]
declare parents.simps [simp del]
declare re_sub.simps [simp del]

lemma root_files_loop_iff:
  "root_files_loop h root names = (\<exists>name \<in> set names. path_exists h (path_join h [root, name]))"
  by (induction names) auto

lemma is_project_root_fst:
  assumes "cache_ok h cache"
  shows "fst (is_project_root h cache root) = is_project_root_body h root"
proof (cases "map_of cache root")
  case None
  then show ?thesis by (simp add: is_project_root_def Let_def)
next
  case (Some b)
  then have "(root, b) \<in> set cache" by (rule map_of_SomeD)
  with assms have "b = is_project_root_body h root" by (auto simp: cache_ok_def)
  with Some show ?thesis by (simp add: is_project_root_def)
qed

lemma is_project_root_cache_ok:
  assumes "cache_ok h cache"
  shows "cache_ok h (snd (is_project_root h cache root))"
proof (cases "map_of cache root")
  case None
  then have eq: "snd (is_project_root h cache root) =
      take 128 ((root, is_project_root_body h root) # cache)"
    by (simp add: is_project_root_def Let_def)
  have "snd e = is_project_root_body h (fst e)"
    if "e \<in> set (take 128 ((root, is_project_root_body h root) # cache))" for e
  proof -
    from that have "e \<in> set ((root, is_project_root_body h root) # cache)"
      by (rule in_set_takeD)
    with assms show ?thesis by (auto simp: cache_ok_def)
  qed
  then show ?thesis unfolding eq cache_ok_def by blast
next
  case (Some b)
  then have "(root, b) \<in> set cache" by (rule map_of_SomeD)
  with assms have "b = is_project_root_body h root" by (auto simp: cache_ok_def)
  with assms Some show ?thesis by (auto simp: is_project_root_def cache_ok_def)
qed

lemma find_venv_loop_decides:
  assumes "cache_ok h cache"
  shows "fst (find_venv_loop h cache root) =
     (case find (\<lambda>d. venv_path h d ''venv'' \<noteq> None \<or> is_project_root_body h d) (walk_dirs h root) of
        None \<Rightarrow> None
      | Some d \<Rightarrow> venv_path h d ''venv'')"
  using assms
proof (induction h cache root rule: find_venv_loop.induct)
  case (1 h cache root)
  show ?case
  proof (cases "venv_path h root ''venv''")
    case (Some v)
    then show ?thesis
      by (subst find_venv_loop.simps, subst walk_dirs.simps) simp
  next
    case None
    note nv = None
    have fst_r: "fst (is_project_root h cache root) = is_project_root_body h root"
      using "1.prems" by (rule is_project_root_fst)
    have ok_r: "cache_ok h (snd (is_project_root h cache root))"
      using "1.prems" by (rule is_project_root_cache_ok)
    show ?thesis
    proof (cases "is_project_root_body h root")
      case True
      with nv fst_r show ?thesis
        by (subst find_venv_loop.simps, subst walk_dirs.simps) simp
    next
      case False
      note nr = False
      show ?thesis
      proof (cases "length (dirname h root) \<ge> length root \<or> dirname h root = user_home h")
        case True
        with nv nr fst_r show ?thesis
          by (subst find_venv_loop.simps, subst walk_dirs.simps) (simp add: Let_def)
      next
        case False
        have IH: "fst (find_venv_loop h (snd (is_project_root h cache root)) (dirname h root)) =
          (case find (\<lambda>d. venv_path h d ''venv'' \<noteq> None \<or> is_project_root_body h d)
                  (walk_dirs h (dirname h root)) of
             None \<Rightarrow> None | Some d \<Rightarrow> venv_path h d ''venv'')"
          using "1.IH"[OF nv refl _ refl False ok_r] nr fst_r by simp
        from False nv nr fst_r IH show ?thesis
          by (subst find_venv_loop.simps, subst walk_dirs.simps) (simp add: Let_def)
      qed
    qed
  qed
qed

lemma find_venv_fuel_enough:
  "depth h root < n \<Longrightarrow> find_venv_fuel n h cache root = Some (find_venv_loop h cache root)"
proof (induction n arbitrary: cache root)
  case 0
  then show ?case by simp
next
  case (Suc n)
  show ?case
  proof (cases "length (dirname h root) \<ge> length root \<or> dirname h root = user_home h")
    case True
    then show ?thesis
      by (subst find_venv_loop.simps) (auto simp: Let_def split: option.splits)
  next
    case False
    then have "depth h root = Suc (depth h (dirname h root))"
      unfolding depth_def by (subst parents.simps) (simp add: Let_def)
    with Suc.prems have "depth h (dirname h root) < n" by simp
    then have "find_venv_fuel n h c (dirname h root) = Some (find_venv_loop h c (dirname h root))" for c
      by (rule Suc.IH)
    with False show ?thesis
      by (subst find_venv_loop.simps) (auto simp: Let_def split: option.splits)
  qed
qed

lemma depth_le_length: "depth h root \<le> length root"
proof (induction h root rule: parents.induct)
  case (1 h root)
  show ?case
  proof (cases "length (dirname h root) \<ge> length root")
    case True
    then show ?thesis unfolding depth_def by (subst parents.simps) simp
  next
    case False
    with 1 have "depth h (dirname h root) \<le> length (dirname h root)" by simp
    with False show ?thesis unfolding depth_def by (subst parents.simps) (simp add: Let_def)
  qed
qed

section \<open>Facts about the resolver\<close>

lemma binary_from_venv_spec:
  "binary_from_venv h folder child =
     (if spec_valid_venv h folder child then Some (spec_binary h folder child) else None)"
  by (simp add: binary_from_venv_def binary_from_python_path_def spec_valid_venv_def
      spec_binary_def Let_def)

lemma venv_names_loop_find:
  "venv_names_loop h folder names =
     map_option (spec_binary h folder) (find (spec_valid_venv h folder) names)"
  by (induction names) (simp_all add: binary_from_venv_spec)

lemma listdir_loop_find:
  "listdir_loop h folder files =
     map_option (spec_binary h folder)
       (find (spec_valid_venv h folder) (filter (\<lambda>c. c \<notin> {''venv'', ''.venv''}) files))"
  by (induction files) (simp_all add: binary_from_venv_spec)

lemma spec_binary_platform:
  "spec_binary h folder child = platform_binary h (path_join h [folder, child])"
  by (simp add: spec_binary_def platform_binary_def)

lemma binary_from_python_path_frame:
  assumes "platform h' = platform h" and "path_join h' = path_join h"
    and "isfile h' (platform_binary h p) = isfile h (platform_binary h p)"
  shows "binary_from_python_path h' p = binary_from_python_path h p"
  using assms by (auto simp: binary_from_python_path_def platform_binary_def Let_def split: if_splits)

lemma binary_from_venv_frame:
  assumes "platform h' = platform h" and "path_join h' = path_join h"
    and "\<forall>p \<in> set (child_paths h folder [child]). isfile h' p = isfile h p"
  shows "binary_from_venv h' folder child = binary_from_venv h folder child"
proof -
  from assms(3) have a: "isfile h' (path_join h [folder, child, ''pyvenv.cfg'']) =
      isfile h (path_join h [folder, child, ''pyvenv.cfg''])"
    and b: "isfile h' (platform_binary h (path_join h [folder, child])) =
      isfile h (platform_binary h (path_join h [folder, child]))"
    by (simp_all add: child_paths_def)
  show ?thesis
    unfolding binary_from_venv_def assms(2) a
    by (simp add: binary_from_python_path_frame[OF assms(1,2) b])
qed

lemma child_paths_Cons:
  "set (child_paths h folder (c # cs)) = set (child_paths h folder [c]) \<union> set (child_paths h folder cs)"
  by (simp add: child_paths_def)

lemma child_paths_append:
  "set (child_paths h folder (cs @ ds)) = set (child_paths h folder cs) \<union> set (child_paths h folder ds)"
  by (simp add: child_paths_def)

lemma venv_names_loop_frame:
  assumes "platform h' = platform h" and "path_join h' = path_join h"
    and "\<forall>p \<in> set (child_paths h folder names). isfile h' p = isfile h p"
  shows "venv_names_loop h' folder names = venv_names_loop h folder names"
  using assms(3)
proof (induction names)
  case Nil
  show ?case by simp
next
  case (Cons c cs)
  from Cons.prems have 1: "\<forall>p \<in> set (child_paths h folder [c]). isfile h' p = isfile h p"
    and 2: "\<forall>p \<in> set (child_paths h folder cs). isfile h' p = isfile h p"
    unfolding child_paths_Cons[of h folder c cs] by blast+
  show ?case
    by (simp add: binary_from_venv_frame[OF assms(1,2) 1] Cons.IH[OF 2] split: option.splits)
qed

lemma listdir_loop_frame:
  assumes "platform h' = platform h" and "path_join h' = path_join h"
    and "\<forall>p \<in> set (child_paths h folder files). isfile h' p = isfile h p"
  shows "listdir_loop h' folder files = listdir_loop h folder files"
  using assms(3)
proof (induction files)
  case Nil
  show ?case by simp
next
  case (Cons c cs)
  from Cons.prems have 1: "\<forall>p \<in> set (child_paths h folder [c]). isfile h' p = isfile h p"
    and 2: "\<forall>p \<in> set (child_paths h folder cs). isfile h' p = isfile h p"
    unfolding child_paths_Cons[of h folder c cs] by blast+
  show ?case
    by (simp add: binary_from_venv_frame[OF assms(1,2) 1] Cons.IH[OF 2] split: option.splits)
qed

lemma subfolder_search_frame:
  assumes "platform h' = platform h" and "path_join h' = path_join h"
    and "listdir h' folder = listdir h folder"
    and "\<forall>p \<in> set (child_paths h folder ([''venv'', ''.venv''] @ listed h folder)). isfile h' p = isfile h p"
  shows "subfolder_search h' folder = subfolder_search h folder"
proof -
  from assms(4) have 1: "\<forall>p \<in> set (child_paths h folder [''venv'', ''.venv'']). isfile h' p = isfile h p"
    and 2: "\<forall>p \<in> set (child_paths h folder (listed h folder)). isfile h' p = isfile h p"
    unfolding child_paths_append by blast+
  have n: "venv_names_loop h' folder [''venv'', ''.venv''] = venv_names_loop h folder [''venv'', ''.venv'']"
    using assms(1,2) 1 by (rule venv_names_loop_frame)
  have l: "listdir_loop h' folder files = listdir_loop h folder files" if "listdir h folder = Inr files" for files
  proof -
    from that have "listed h folder = files" by (simp add: listed_def)
    with 2 have "\<forall>p \<in> set (child_paths h folder files). isfile h' p = isfile h p" by simp
    with assms(1,2) show ?thesis by (rule listdir_loop_frame)
  qed
  show ?thesis
    unfolding subfolder_search_def n assms(3)
    by (auto simp: l split: option.splits sum.splits)
qed

lemma venv_config_loop_frame:
  assumes "plugin_name h' = plugin_name h" and "path_join h' = path_join h"
    and "list_all2 (rule_agree h h' folder) rules' rules"
  shows "venv_config_loop h' folder rules' = venv_config_loop h folder rules"
  using assms(3)
proof (induction rules' rules rule: list_all2_induct)
  case Nil
  show ?case by simp
next
  case (Cons r' rs' r rs)
  obtain config_file command post where r: "r = (config_file, command, post)"
    by (cases r) auto
  obtain post' where r': "r' = (config_file, command, post')"
    using Cons.hyps(1) by (cases r') (auto simp: rule_agree_def r)
  from Cons.hyps(1) have f: "isfile h' (path_join h [folder, config_file]) =
      isfile h (path_join h [folder, config_file])"
    and c: "check_output h' command folder = check_output h command folder"
    and p: "\<And>out. check_output h command folder = Inr out \<Longrightarrow>
            (case post' of None \<Rightarrow> Some (strip out) | Some g \<Rightarrow> g (strip out)) =
            (case post of None \<Rightarrow> Some (strip out) | Some g \<Rightarrow> g (strip out))"
    by (simp_all add: rule_agree_def r r')
  show ?case
  proof (cases "check_output h command folder")
    case (Inl e)
    then show ?thesis unfolding r r'
      by (simp add: assms(1,2) f c Cons.IH warn_not_found_def warn_exit_status_def
          split: list.splits)
  next
    case (Inr out)
    with p[OF Inr] show ?thesis unfolding r r'
      by (simp add: assms(1,2) f c Cons.IH Let_def)
  qed
qed

lemma venv_config_files_agree:
  assumes "same_view h h' folder"
  shows "list_all2 (rule_agree h h' folder) (venv_config_files h') (venv_config_files h)"
proof -
  from assms have pl: "platform h' = platform h" and pj: "path_join h' = path_join h"
    and co: "\<forall>r \<in> set (venv_config_files h).
            check_output h' (fst (snd r)) folder = check_output h (fst (snd r)) folder"
    and tp: "\<forall>p \<in> set (tool_paths h folder). isfile h' p = isfile h p"
    by (simp_all add: same_view_def inspected_paths_def)
  have b: "binary_from_python_path h' (strip out) = binary_from_python_path h (strip out)"
    if "check_output h [''poetry'', ''env'', ''info'', ''-p''] folder = Inr out" for out
  proof -
    from tp that have "isfile h' (platform_binary h (strip out)) = isfile h (platform_binary h (strip out))"
      by (simp add: tool_paths_def venv_config_files_def)
    with pl pj show ?thesis by (rule binary_from_python_path_frame)
  qed
  from co tp show ?thesis
    by (simp add: venv_config_files_def rule_agree_def tool_paths_def b)
qed

lemma resolve_frame:
  assumes "same_view h h' (path f)"
  shows "resolve_python_path_from_venv h' settings (f # fs') =
         resolve_python_path_from_venv h settings (f # fs)"
proof -
  from assms have pl: "platform h' = platform h" and pn: "plugin_name h' = plugin_name h"
    and pj: "path_join h' = path_join h" and ls: "listdir h' (path f) = listdir h (path f)"
    and cp: "\<forall>p \<in> set (child_paths h (path f) ([''venv'', ''.venv''] @ listed h (path f))).
               isfile h' p = isfile h p"
    by (simp_all add: same_view_def inspected_paths_def)
  have t: "venv_config_loop h' (path f) (venv_config_files h') =
      venv_config_loop h (path f) (venv_config_files h)"
    using pn pj venv_config_files_agree[OF assms] by (rule venv_config_loop_frame)
  have s: "subfolder_search h' (path f) = subfolder_search h (path f)"
    using pl pj ls cp by (rule subfolder_search_frame)
  show ?thesis by (simp add: resolve_python_path_from_venv_def t s Let_def split: outcome.splits)
qed

lemma find_append_list:
  "find P (xs @ ys) = (case find P xs of Some x \<Rightarrow> Some x | None \<Rightarrow> find P ys)"
  by (induction xs) simp_all

lemma subfolder_search_listed:
  assumes "listdir h folder = Inr files"
  shows "subfolder_search h folder =
     Inr (map_option (spec_binary h folder)
            (find (spec_valid_venv h folder)
               ([''venv'', ''.venv''] @ filter (\<lambda>c. c \<notin> {''venv'', ''.venv''}) files)))"
  unfolding subfolder_search_def venv_names_loop_find listdir_loop_find assms find_append_list
  by (cases "find (spec_valid_venv h folder) [''venv'', ''.venv'']") simp_all

lemma on_pre_start_no_walk:
  "on_pre_start (h\<lparr>dirname := d, user_home := u, path_exists := e, lexists := l, isdir := i\<rparr>)
     settings (f # fs) =
   on_pre_start h settings [f]"
proof -
  have "same_view h (h\<lparr>dirname := d, user_home := u, path_exists := e, lexists := l, isdir := i\<rparr>)
      (path f)"
    by (simp add: same_view_def)
  then have "resolve_python_path_from_venv
      (h\<lparr>dirname := d, user_home := u, path_exists := e, lexists := l, isdir := i\<rparr>)
      settings (f # fs) =
    resolve_python_path_from_venv h settings [f]"
    by (rule resolve_frame)
  then show ?thesis by (simp add: on_pre_start_def Let_def split: sum.splits)
qed

lemma posix_join2_below:
  assumes "b = [] \<or> hd b \<noteq> CHR ''/''"
  shows "take (length a) (posix_join2 a b) = a"
  using assms by (auto simp: posix_join2_def)

lemma take_take_below:
  assumes "take (length b) c = b" and "take (length a) b = a"
  shows "take (length a) c = a"
proof -
  have "length a \<le> length b"
    using assms(2) by (metis length_take min.cobounded1)
  then have "take (length a) c = take (length a) (take (length b) c)"
    by (simp add: min_def)
  with assms show ?thesis by simp
qed

lemma child_paths_below_folder:
  assumes "\<forall>c \<in> set children. c = [] \<or> hd c \<noteq> CHR ''/''"
  shows "\<forall>p \<in> set (child_paths (posix_host home files dirs ls run) folder children).
           take (length folder) p = folder"
proof
  fix p
  assume "p \<in> set (child_paths (posix_host home files dirs ls run) folder children)"
  then obtain c where c: "c \<in> set children"
    and p: "p = posix_join2 (posix_join2 folder c) ''pyvenv.cfg''
           \<or> p = posix_join2 (posix_join2 (posix_join2 folder c) ''bin'') ''python''"
    by (auto simp: child_paths_def platform_binary_def posix_host_def posix_join_def)
  from c assms have "c = [] \<or> hd c \<noteq> CHR ''/''" by blast
  then have 1: "take (length folder) (posix_join2 folder c) = folder"
    by (rule posix_join2_below)
  have 2: "take (length (posix_join2 folder c)) (posix_join2 (posix_join2 folder c) x) =
      posix_join2 folder c" if "x = [] \<or> hd x \<noteq> CHR ''/''" for x
    using that by (rule posix_join2_below)
  have 3: "take (length folder) (posix_join2 (posix_join2 folder c) x) = folder"
    if "x = [] \<or> hd x \<noteq> CHR ''/''" for x
    using 2[OF that] 1 by (rule take_take_below)
  have 4: "take (length (posix_join2 (posix_join2 folder c) ''bin''))
        (posix_join2 (posix_join2 (posix_join2 folder c) ''bin'') ''python'') =
      posix_join2 (posix_join2 folder c) ''bin''"
    by (rule posix_join2_below) simp
  have 5: "take (length folder) (posix_join2 (posix_join2 (posix_join2 folder c) ''bin'') ''python'') = folder"
  proof -
    have "take (length folder) (posix_join2 (posix_join2 folder c) ''bin'') = folder"
      by (rule 3) simp
    with 4 show ?thesis by (rule take_take_below)
  qed
  have 6: "take (length folder) (posix_join2 (posix_join2 folder c) ''pyvenv.cfg'') = folder"
    by (rule 3) simp
  from p 5 6 show "take (length folder) p = folder" by auto
qed

section \<open>The claims\<close>

text \<open>
  C1. When the settings hold a non-empty value under \<^verbatim>\<open>python.pythonPath\<close>,
  \<^verbatim>\<open>resolve_python_path_from_venv\<close> returns that value as it is, on every host and for every
  list of workspace folders: the result does not depend on any file, no command is invoked
  and nothing is printed (the list of events is empty).
\<close>

theorem C1_explicit_override:
  assumes "settings ''python.pythonPath'' = Some p" and "p \<noteq> []"
  shows "resolve_python_path_from_venv h settings workspace_folders = ([], Inr (Some p))"
  using assms by (simp add: resolve_python_path_from_venv_def)

theorem C1_explicit_override_witness:
  "(Map.empty(''python.pythonPath'' \<mapsto> ''/usr/bin/python3'')) ''python.pythonPath''
     = Some ''/usr/bin/python3''
   \<and> ''/usr/bin/python3'' \<noteq> []
   \<and> resolve_python_path_from_venv walk_host
         (Map.empty(''python.pythonPath'' \<mapsto> ''/usr/bin/python3''))
         [\<lparr>name = ''app'', path = ''/w/app''\<rparr>]
       = ([], Inr (Some ''/usr/bin/python3''))"
  using C1_explicit_override[of "Map.empty(''python.pythonPath'' \<mapsto> ''/usr/bin/python3'')"
      "''/usr/bin/python3''" walk_host "[\<lparr>name = ''app'', path = ''/w/app''\<rparr>]"]
  by simp

text \<open>A rule whose marker file exists and whose command returns ends the loop: what the
  post-processing gives is returned, also when it gives nothing.\<close>

lemma venv_config_loop_returns:
  assumes "isfile h (path_join h [folder, config_file])"
    and "check_output h command folder = Inr out"
  shows "venv_config_loop h folder ((config_file, command, post_processing) # rules) =
     ([Invoke command folder],
      Return (case post_processing of Some f \<Rightarrow> f (strip out) | None \<Rightarrow> Some (strip out)))"
  using assms by (simp add: Let_def)

text \<open>
  C2. The claim: when the marker file of a rule exists and its command returns, and the
  post-processing of the rule gives nothing, resolution goes on with the next rule. The
  code returns what the post-processing gives, nothing included, from the whole resolver.
  Here \<^verbatim>\<open>poetry.lock\<close> exists and poetry prints a directory without interpreter: the
  resolver returns nothing after one invocation, although the next rule
  (\<^verbatim>\<open>.python-version\<close>) would give an interpreter, and so would the subfolder step.
\<close>

theorem C2_poetry_postprocessing_absent:
  "resolve_python_path_from_venv poetry_host Map.empty proj =
     ([Invoke [''poetry'', ''env'', ''info'', ''-p''] ''/proj''], Inr None)
   \<and> venv_config_loop poetry_host ''/proj''
         [(''.python-version'', [''pyenv'', ''which'', ''python''], None)] =
     ([Invoke [''pyenv'', ''which'', ''python''] ''/proj''],
      Return (Some ''/pyenv/versions/3.9/bin/python''))
   \<and> subfolder_search poetry_host ''/proj'' = Inr (Some ''/proj/.venv/bin/python'')"
  by (simp add: resolver_simps proj_def poetry_host_def poetry_run_def posix_simps)

text \<open>
  C3, as amended. When no override is set, \<^verbatim>\<open>on_pre_start\<close> (through
  \<^verbatim>\<open>resolve_python_path_from_venv\<close>) looks for a conventional virtual environment only among
  the direct children of the first workspace folder, and never walks upward. In two parts.
  First, the result and the events of \<^verbatim>\<open>on_pre_start\<close> are the same on two hosts that give
  the same view of the first folder (\<open>same_view\<close>), whatever the other folders are: the files
  at other paths (those of the parents among them), \<^verbatim>\<open>os.path.dirname\<close>, the home
  directory, plain existence and the listing of other directories have no part in it.
  Second, when no override is set, the tool rules fall through and the folder can be
  listed, the path it sets is the binary of the first valid child among \<^verbatim>\<open>venv\<close>,
  \<^verbatim>\<open>.venv\<close> and the other entries of the listing, or \<^verbatim>\<open>python\<close> when no child is valid.
\<close>

theorem C3_entry_point_children_only:
  "(same_view h h' (path f) \<longrightarrow>
      on_pre_start h' settings (f # fs') = on_pre_start h settings (f # fs))
   \<and> (\<not> truthy (settings ''python.pythonPath'')
        \<and> snd (venv_config_loop h (path f) (venv_config_files h)) = Fallthrough
        \<and> listdir h (path f) = Inr files \<longrightarrow>
      snd (on_pre_start h settings (f # fs)) =
        Inr (settings(''python.pythonPath'' \<mapsto>
               or_python (map_option (spec_binary h (path f))
                 (find (spec_valid_venv h (path f))
                    ([''venv'', ''.venv''] @ filter (\<lambda>c. c \<notin> {''venv'', ''.venv''}) files))))))"
proof (intro conjI impI)
  assume v: "same_view h h' (path f)"
  then have pn: "plugin_name h' = plugin_name h" by (simp add: same_view_def)
  show "on_pre_start h' settings (f # fs') = on_pre_start h settings (f # fs)"
    unfolding on_pre_start_def resolve_frame[OF v, of settings fs' fs] pn ..
next
  assume a: "\<not> truthy (settings ''python.pythonPath'')
        \<and> snd (venv_config_loop h (path f) (venv_config_files h)) = Fallthrough
        \<and> listdir h (path f) = Inr files"
  then have l: "listdir h (path f) = Inr files" by simp
  from a have "snd (resolve_python_path_from_venv h settings (f # fs)) = subfolder_search h (path f)"
    by (simp add: resolve_python_path_from_venv_def Let_def)
  then show "snd (on_pre_start h settings (f # fs)) =
        Inr (settings(''python.pythonPath'' \<mapsto>
               or_python (map_option (spec_binary h (path f))
                 (find (spec_valid_venv h (path f))
                    ([''venv'', ''.venv''] @ filter (\<lambda>c. c \<notin> {''venv'', ''.venv''}) files)))))"
    by (simp add: on_pre_start_def Let_def subfolder_search_listed[OF l])
qed

theorem C3_entry_point_children_only_witness:
  "same_view walk_host moved_host ''/w/app/src''
   \<and> isfile moved_host ''/w/app/venv/pyvenv.cfg'' \<and> isfile moved_host ''/w/app/venv/bin/python''
   \<and> \<not> isfile walk_host ''/w/app/venv/pyvenv.cfg''
   \<and> on_pre_start moved_host Map.empty (src @ [\<lparr>name = ''app'', path = ''/w/app''\<rparr>]) =
       on_pre_start walk_host Map.empty src
   \<and> map_sum id (\<lambda>s. s ''python.pythonPath'')
         (snd (on_pre_start moved_host Map.empty (src @ [\<lparr>name = ''app'', path = ''/w/app''\<rparr>]))) =
       Inr (Some ''python'')
   \<and> \<not> truthy (Map.empty ''python.pythonPath'')
   \<and> snd (venv_config_loop listing_host ''/proj'' (venv_config_files listing_host)) = Fallthrough
   \<and> listdir listing_host ''/proj'' = Inr [''README.md'', ''venv'', ''env39'', ''zz'']
   \<and> snd (on_pre_start listing_host Map.empty proj) =
       Inr (Map.empty(''python.pythonPath'' \<mapsto> ''/proj/env39/bin/python''))"
proof -
  have v: "same_view walk_host moved_host (path \<lparr>name = ''src'', path = ''/w/app/src''\<rparr>)"
    by (simp add: same_view_def inspected_paths_def tool_paths_def child_paths_def listed_def
        platform_binary_def venv_config_files_def walk_host_def moved_host_def posix_simps)
  have i: "isfile moved_host ''/w/app/venv/pyvenv.cfg'' \<and> isfile moved_host ''/w/app/venv/bin/python''
      \<and> \<not> isfile walk_host ''/w/app/venv/pyvenv.cfg''"
    by (simp add: walk_host_def moved_host_def posix_host_def)
  have 1: "on_pre_start moved_host Map.empty (src @ [\<lparr>name = ''app'', path = ''/w/app''\<rparr>]) =
       on_pre_start walk_host Map.empty src"
    unfolding src_def append.simps
    using C3_entry_point_children_only[where h = walk_host and h' = moved_host
        and f = "\<lparr>name = ''src'', path = ''/w/app/src''\<rparr>", THEN conjunct1] v
    by (rule mp)
  have w: "resolve_python_path_from_venv walk_host Map.empty src = ([], Inr None)"
    by (simp add: resolver_simps src_def walk_host_def posix_simps)
  have m: "map_sum id (\<lambda>s. s ''python.pythonPath'')
         (snd (on_pre_start moved_host Map.empty (src @ [\<lparr>name = ''app'', path = ''/w/app''\<rparr>]))) =
       Inr (Some ''python'')"
    unfolding 1 by (simp add: on_pre_start_def w)
  have a: "\<not> truthy (Map.empty ''python.pythonPath'')" by simp
  have b: "snd (venv_config_loop listing_host (path \<lparr>name = ''proj'', path = ''/proj''\<rparr>)
                  (venv_config_files listing_host)) = Fallthrough"
    by (simp add: venv_config_files_def listing_host_def posix_simps)
  have l: "listdir listing_host (path \<lparr>name = ''proj'', path = ''/proj''\<rparr>) =
      Inr [''README.md'', ''venv'', ''env39'', ''zz'']"
    by (simp add: listing_host_def posix_host_def)
  have "snd (on_pre_start listing_host Map.empty (\<lparr>name = ''proj'', path = ''/proj''\<rparr> # [])) =
        Inr (Map.empty(''python.pythonPath'' \<mapsto>
               or_python (map_option (spec_binary listing_host (path \<lparr>name = ''proj'', path = ''/proj''\<rparr>))
                 (find (spec_valid_venv listing_host (path \<lparr>name = ''proj'', path = ''/proj''\<rparr>))
                    ([''venv'', ''.venv''] @ filter (\<lambda>c. c \<notin> {''venv'', ''.venv''})
                       [''README.md'', ''venv'', ''env39'', ''zz''])))))"
    using C3_entry_point_children_only[where h = listing_host and settings = Map.empty
        and f = "\<lparr>name = ''proj'', path = ''/proj''\<rparr>" and fs = "[]"
        and files = "[''README.md'', ''venv'', ''env39'', ''zz'']", THEN conjunct2]
      conjI[OF a conjI[OF b l]]
    by (rule mp)
  then have 2: "snd (on_pre_start listing_host Map.empty proj) =
       Inr (Map.empty(''python.pythonPath'' \<mapsto> ''/proj/env39/bin/python''))"
    unfolding proj_def
    by (simp add: spec_valid_venv_def spec_binary_def listing_host_def posix_simps)
  from v i 1 m a b l 2 show ?thesis by simp
qed

text \<open>
  C3 as the specification states it fails: no override is set, the workspace folder
  \<^verbatim>\<open>/w/app/src\<close> has the parent \<^verbatim>\<open>/w/app\<close>, a project root with a virtual environment. The
  upward walk, which only \<^verbatim>\<open>resolve_virtualenv\<close> makes, finds that environment; the
  resolver that \<^verbatim>\<open>on_pre_start\<close> calls finds nothing, and the setting becomes \<^verbatim>\<open>python\<close>.
\<close>

theorem C3_entry_point_counterexample:
  "\<not> truthy (Map.empty ''python.pythonPath'')
   \<and> fst (resolve_virtualenv walk_host [] Map.empty src) = Some ''/w/app/venv/bin/python''
   \<and> snd (resolve_python_path_from_venv walk_host Map.empty src) = Inr None
   \<and> map_sum id (\<lambda>s. s ''python.pythonPath'') (snd (on_pre_start walk_host Map.empty src)) =
       Inr (Some ''python'')"
proof -
  have a: "fst (resolve_virtualenv walk_host [] Map.empty src) = Some ''/w/app/venv/bin/python''"
    by (simp add: resolve_virtualenv_def src_def find_venv_loop.simps walk_simps
        walk_host_def posix_simps)
  have b: "resolve_python_path_from_venv walk_host Map.empty src = ([], Inr None)"
    by (simp add: resolver_simps src_def walk_host_def posix_simps)
  have c: "map_sum id (\<lambda>s. s ''python.pythonPath'') (snd (on_pre_start walk_host Map.empty src)) =
       Inr (Some ''python'')"
    by (simp add: on_pre_start_def b)
  from a b c show ?thesis by simp
qed

text \<open>
  C4, as amended. On a host that is not Windows, for a start path that exists,
  \<^verbatim>\<open>_find_venv\<close> is decided by the first directory, among the start and its parents below
  the user's home directory (\<open>walk_dirs\<close>), that holds \<^verbatim>\<open>venv/bin/python\<close> or is a project
  root: it returns the path of that interpreter when the directory holds one, and nothing
  when the directory is a project root without one or when there is no such directory.
  No directory above the deciding one has a part in the result.
\<close>

theorem C4_find_venv_posix:
  assumes "platform h \<noteq> ''windows''" and "lexists h start" and "cache_ok h cache"
  shows "fst (find_venv h cache start) =
     (case find (\<lambda>d. path_exists h (path_join h [d, ''venv'', ''bin'', ''python''])
                      \<or> is_project_root_body h d) (walk_dirs h start) of
        None \<Rightarrow> None
      | Some d \<Rightarrow>
          if path_exists h (path_join h [d, ''venv'', ''bin'', ''python''])
          then Some (path_join h [d, ''venv'', ''bin'', ''python'']) else None)"
proof -
  have v: "venv_path h d ''venv'' =
      (if path_exists h (path_join h [d, ''venv'', ''bin'', ''python''])
       then Some (path_join h [d, ''venv'', ''bin'', ''python'']) else None)" for d
    using assms(1) by (simp add: venv_path_def python_exe_def)
  have p: "(venv_path h d ''venv'' \<noteq> None) =
      path_exists h (path_join h [d, ''venv'', ''bin'', ''python''])" for d
    by (simp add: v)
  have "fst (find_venv_loop h cache start) =
     (case find (\<lambda>d. venv_path h d ''venv'' \<noteq> None \<or> is_project_root_body h d) (walk_dirs h start) of
        None \<Rightarrow> None
      | Some d \<Rightarrow> venv_path h d ''venv'')"
    using assms(3) by (rule find_venv_loop_decides)
  then have "fst (find_venv_loop h cache start) =
     (case find (\<lambda>d. path_exists h (path_join h [d, ''venv'', ''bin'', ''python''])
                      \<or> is_project_root_body h d) (walk_dirs h start) of
        None \<Rightarrow> None
      | Some d \<Rightarrow>
          if path_exists h (path_join h [d, ''venv'', ''bin'', ''python''])
          then Some (path_join h [d, ''venv'', ''bin'', ''python'']) else None)"
    unfolding p by (simp only: v)
  with assms(2) show ?thesis by (simp add: find_venv_def)
qed

theorem C4_find_venv_posix_witness:
  "platform walk_host \<noteq> ''windows'' \<and> lexists walk_host ''/w/app/src'' \<and> cache_ok walk_host []
   \<and> fst (find_venv walk_host [] ''/w/app/src'') = Some ''/w/app/venv/bin/python''
   \<and> platform boundary_host \<noteq> ''windows'' \<and> lexists boundary_host ''/r/proj/pkg''
   \<and> cache_ok boundary_host []
   \<and> path_exists boundary_host ''/r/venv/bin/python''
   \<and> fst (find_venv boundary_host [] ''/r/proj/pkg'') = None"
proof -
  have a': "platform boundary_host \<noteq> ''windows''" by (simp add: boundary_host_def posix_host_def)
  have b': "lexists boundary_host ''/r/proj/pkg''" by (simp add: boundary_host_def posix_host_def)
  have c': "cache_ok boundary_host []" by (simp add: cache_ok_def)
  have e': "path_exists boundary_host ''/r/venv/bin/python''"
    by (simp add: boundary_host_def posix_host_def)
  have w': "walk_dirs boundary_host ''/r/proj/pkg'' = [''/r/proj/pkg'', ''/r/proj'', ''/r'', ''/'']"
    by (simp add: walk_dirs.simps boundary_host_def posix_simps)
  have r': "fst (find_venv boundary_host [] ''/r/proj/pkg'') = None"
    unfolding C4_find_venv_posix[OF a' b' c'] w'
    by (simp add: boundary_host_def posix_simps is_project_root_body_def ROOT_FILES_def)
  have a: "platform walk_host \<noteq> ''windows''" by (simp add: walk_host_def posix_host_def)
  have b: "lexists walk_host ''/w/app/src''" by (simp add: walk_host_def posix_host_def)
  have c: "cache_ok walk_host []" by (simp add: cache_ok_def)
  have w: "walk_dirs walk_host ''/w/app/src'' = [''/w/app/src'', ''/w/app'', ''/w'', ''/'']"
    by (simp add: walk_dirs.simps walk_host_def posix_simps)
  have "fst (find_venv walk_host [] ''/w/app/src'') = Some ''/w/app/venv/bin/python''"
    unfolding C4_find_venv_posix[OF a b c] w
    by (simp add: walk_host_def posix_simps is_project_root_body_def ROOT_FILES_def)
  with a b c a' b' c' e' r' show ?thesis by simp
qed

text \<open>
  C4 as the specification states it fails: the start \<^verbatim>\<open>/home/u/x\<close> exists, has no
  environment and is no project root; its parent, the home directory, holds
  \<^verbatim>\<open>venv/bin/python\<close>, so the nearest directory with an environment is the home directory.
  The walk stops before looking into it.
\<close>

theorem C4_find_venv_counterexample:
  "lexists home_host ''/home/u/x''
   \<and> spec_find_venv home_host ''/home/u/x'' = Some ''/home/u/venv/bin/python''
   \<and> fst (find_venv home_host [] ''/home/u/x'') = None"
proof -
  have p: "parents home_host ''/home/u/x'' = [''/home/u'', ''/home'', ''/'']"
    by (simp add: parents.simps home_host_def posix_simps)
  have a: "spec_find_venv home_host ''/home/u/x'' = Some ''/home/u/venv/bin/python''"
    unfolding spec_find_venv_def p
    by (simp add: spec_venv_binary_def home_host_def posix_simps is_project_root_body_def ROOT_FILES_def)
  have b: "fst (find_venv home_host [] ''/home/u/x'') = None"
    by (simp add: find_venv_loop.simps walk_simps home_host_def posix_simps)
  show ?thesis using a b by (simp add: home_host_def posix_host_def)
qed

text \<open>On Windows \<^verbatim>\<open>_venv_path\<close> looks for \<^verbatim>\<open>bin\python.exe\<close>, where
  \<^verbatim>\<open>binary_from_python_path\<close> looks for \<^verbatim>\<open>Scripts\python.exe\<close>.\<close>

lemma venv_path_windows:
  assumes "platform h = ''windows''"
  shows "venv_path h root venv_name =
     (if path_exists h (path_join h [root, venv_name, ''bin'', ''python.exe''])
      then Some (path_join h [root, venv_name, ''bin'', ''python.exe'']) else None)"
  using assms by (simp add: venv_path_def python_exe_def)

text \<open>
  C5. When no override is set and the loop over the tool rules falls through, the
  resolver returns the binary of the first valid child of the first workspace folder:
  \<^verbatim>\<open>venv\<close> is tried first, then \<^verbatim>\<open>.venv\<close>, then the other entries of the directory listing
  in the order of the listing. A child is valid when it holds \<^verbatim>\<open>pyvenv.cfg\<close> and the
  interpreter of the platform. The directory is listed only when neither \<^verbatim>\<open>venv\<close> nor
  \<^verbatim>\<open>.venv\<close> is valid, and an exception of the listing leaves the resolver.
\<close>

theorem C5_subfolder_search:
  assumes "\<not> truthy (settings ''python.pythonPath'')"
    and "snd (venv_config_loop h (path f) (venv_config_files h)) = Fallthrough"
  shows "snd (resolve_python_path_from_venv h settings (f # fs)) =
     (case find (spec_valid_venv h (path f)) [''venv'', ''.venv''] of
        Some child \<Rightarrow> Inr (Some (spec_binary h (path f) child))
      | None \<Rightarrow>
          (case listdir h (path f) of
             Inl e \<Rightarrow> Inl e
           | Inr files \<Rightarrow>
               Inr (map_option (spec_binary h (path f))
                      (find (spec_valid_venv h (path f))
                         (filter (\<lambda>c. c \<notin> {''venv'', ''.venv''}) files)))))"
proof -
  have "snd (resolve_python_path_from_venv h settings (f # fs)) = subfolder_search h (path f)"
    using assms by (simp add: resolve_python_path_from_venv_def Let_def)
  also have "\<dots> =
     (case find (spec_valid_venv h (path f)) [''venv'', ''.venv''] of
        Some child \<Rightarrow> Inr (Some (spec_binary h (path f) child))
      | None \<Rightarrow>
          (case listdir h (path f) of
             Inl e \<Rightarrow> Inl e
           | Inr files \<Rightarrow>
               Inr (map_option (spec_binary h (path f))
                      (find (spec_valid_venv h (path f))
                         (filter (\<lambda>c. c \<notin> {''venv'', ''.venv''}) files)))))"
    unfolding subfolder_search_def venv_names_loop_find listdir_loop_find
    by (cases "find (spec_valid_venv h (path f)) [''venv'', ''.venv'']") simp_all
  finally show ?thesis .
qed

theorem C5_subfolder_search_witness:
  "\<not> truthy (Map.empty ''python.pythonPath'')
   \<and> snd (venv_config_loop listing_host ''/proj'' (venv_config_files listing_host)) = Fallthrough
   \<and> listdir listing_host ''/proj'' = Inr [''README.md'', ''venv'', ''env39'', ''zz'']
   \<and> snd (resolve_python_path_from_venv listing_host Map.empty proj) =
       Inr (Some ''/proj/env39/bin/python'')"
proof -
  have a: "\<not> truthy (Map.empty ''python.pythonPath'')" by simp
  have b: "snd (venv_config_loop listing_host (path \<lparr>name = ''proj'', path = ''/proj''\<rparr>)
                  (venv_config_files listing_host)) = Fallthrough"
    by (simp add: venv_config_files_def listing_host_def posix_simps)
  have l: "listdir listing_host ''/proj'' = Inr [''README.md'', ''venv'', ''env39'', ''zz'']"
    by (simp add: listing_host_def posix_host_def)
  have "snd (resolve_python_path_from_venv listing_host Map.empty proj) =
       Inr (Some ''/proj/env39/bin/python'')"
    unfolding proj_def C5_subfolder_search[OF a b]
    by (simp add: spec_valid_venv_def spec_binary_def listing_host_def posix_simps)
  with a b l show ?thesis by simp
qed

text \<open>
  C6. When the loop over the tool rules comes to a rule of \<^verbatim>\<open>venv_config_files\<close> whose
  marker file exists and whose command raises \<^verbatim>\<open>FileNotFoundError\<close> or
  \<^verbatim>\<open>CalledProcessError\<close>, it prints the warning of that exception and goes on with the rules
  that follow: its result is theirs, after the invocation and the warning. The exception
  does not leave the loop.
\<close>

theorem C6_command_failure_continues:
  assumes "venv_config_files h = earlier @ (config_file, command, post_processing) # rules"
    and "isfile h (path_join h [folder, config_file])"
    and "check_output h command folder = Inl e"
    and "e = FileNotFoundError \<or> e = CalledProcessError"
  shows "venv_config_loop h folder ((config_file, command, post_processing) # rules) =
     emit [Invoke command folder,
           Print (if e = FileNotFoundError then warn_not_found h config_file (hd command)
                  else warn_exit_status h config_file command)]
       (venv_config_loop h folder rules)"
proof -
  have "(config_file, command, post_processing) \<in> set (venv_config_files h)"
    unfolding assms(1) by simp
  then have "command \<noteq> []" by (auto simp: venv_config_files_def)
  then obtain command0 rest where c: "command = command0 # rest" by (cases command) auto
  from assms(2,3,4) show ?thesis unfolding c by auto
qed

theorem C6_command_failure_continues_witness:
  "isfile no_poetry_host (path_join no_poetry_host [''/proj'', ''poetry.lock''])
   \<and> check_output no_poetry_host [''poetry'', ''env'', ''info'', ''-p''] ''/proj'' = Inl FileNotFoundError
   \<and> venv_config_loop no_poetry_host ''/proj'' (tl (venv_config_files no_poetry_host)) =
       ([Invoke [''poetry'', ''env'', ''info'', ''-p''] ''/proj'',
         Print ''LSP-pyright: WARN: poetry.lock detected but poetry not found''], Fallthrough)
   \<and> resolve_python_path_from_venv no_poetry_host Map.empty proj =
       ([Invoke [''poetry'', ''env'', ''info'', ''-p''] ''/proj'',
         Print ''LSP-pyright: WARN: poetry.lock detected but poetry not found''],
        Inr (Some ''/proj/.venv/bin/python''))"
proof -
  have t: "venv_config_files no_poetry_host =
      [(''Pipfile'', [''pipenv'', ''--py''], None)]
      @ (''poetry.lock'', [''poetry'', ''env'', ''info'', ''-p''],
         Some (binary_from_python_path no_poetry_host))
      # [(''.python-version'', [''pyenv'', ''which'', ''python''], None)]"
    by (simp add: venv_config_files_def)
  have a: "isfile no_poetry_host (path_join no_poetry_host [''/proj'', ''poetry.lock''])"
    by (simp add: no_poetry_host_def posix_simps)
  have b: "check_output no_poetry_host [''poetry'', ''env'', ''info'', ''-p''] ''/proj'' =
      Inl FileNotFoundError"
    by (simp add: no_poetry_host_def posix_host_def)
  have c: "FileNotFoundError = FileNotFoundError \<or> FileNotFoundError = CalledProcessError"
    by simp
  have q: "\<not> isfile no_poetry_host (path_join no_poetry_host [''/proj'', ''.python-version''])"
    by (simp add: no_poetry_host_def posix_simps)
  have pn: "plugin_name no_poetry_host = ''LSP-pyright''"
    by (simp add: no_poetry_host_def posix_host_def)
  have "venv_config_loop no_poetry_host ''/proj'' (tl (venv_config_files no_poetry_host)) =
      venv_config_loop no_poetry_host ''/proj''
        ((''poetry.lock'', [''poetry'', ''env'', ''info'', ''-p''],
          Some (binary_from_python_path no_poetry_host))
         # [(''.python-version'', [''pyenv'', ''which'', ''python''], None)])"
    unfolding t by (simp only: append.simps list.sel)
  also have "\<dots> =
      emit [Invoke [''poetry'', ''env'', ''info'', ''-p''] ''/proj'',
            Print (if FileNotFoundError = FileNotFoundError
                   then warn_not_found no_poetry_host ''poetry.lock''
                          (hd [''poetry'', ''env'', ''info'', ''-p''])
                   else warn_exit_status no_poetry_host ''poetry.lock''
                          [''poetry'', ''env'', ''info'', ''-p''])]
        (venv_config_loop no_poetry_host ''/proj''
           [(''.python-version'', [''pyenv'', ''which'', ''python''], None)])"
    by (rule C6_command_failure_continues[OF t a b c])
  also have "\<dots> =
       ([Invoke [''poetry'', ''env'', ''info'', ''-p''] ''/proj'',
         Print ''LSP-pyright: WARN: poetry.lock detected but poetry not found''], Fallthrough)"
    by (simp add: q emit_def warn_not_found_def pn)
  finally have 1: "venv_config_loop no_poetry_host ''/proj'' (tl (venv_config_files no_poetry_host)) =
       ([Invoke [''poetry'', ''env'', ''info'', ''-p''] ''/proj'',
         Print ''LSP-pyright: WARN: poetry.lock detected but poetry not found''], Fallthrough)" .
  have p: "\<not> isfile no_poetry_host (path_join no_poetry_host [''/proj'', ''Pipfile''])"
    by (simp add: no_poetry_host_def posix_simps)
  have s: "subfolder_search no_poetry_host ''/proj'' = Inr (Some ''/proj/.venv/bin/python'')"
    by (simp add: subfolder_search_def binary_from_venv_def binary_from_python_path_def
        no_poetry_host_def posix_simps)
  have l: "venv_config_loop no_poetry_host ''/proj'' (venv_config_files no_poetry_host) =
      venv_config_loop no_poetry_host ''/proj'' (tl (venv_config_files no_poetry_host))"
    unfolding t using p by simp
  have 2: "resolve_python_path_from_venv no_poetry_host Map.empty proj =
       ([Invoke [''poetry'', ''env'', ''info'', ''-p''] ''/proj'',
         Print ''LSP-pyright: WARN: poetry.lock detected but poetry not found''],
        Inr (Some ''/proj/.venv/bin/python''))"
    unfolding resolve_python_path_from_venv_def proj_def
    by (simp add: l 1 s Let_def)
  from a b 1 2 show ?thesis by (intro conjI)
qed

text \<open>
  C7. With a cache that holds results of this file system only, \<^verbatim>\<open>is_project_root(p)\<close> is
  true exactly when \<open>p\<close> is the user's home directory or one of the names of
  \<^verbatim>\<open>ROOT_FILES\<close> exists in \<open>p\<close>. In particular it is false for a path that does not exist
  and is not the home directory, on a file system where nothing exists inside a path that
  does not exist. The function returns a truth value in every case: it cannot raise.
\<close>

theorem C7_is_project_root:
  assumes "cache_ok h cache"
  shows "(fst (is_project_root h cache p) =
            (p = user_home h \<or> (\<exists>name \<in> set ROOT_FILES. path_exists h (path_join h [p, name]))))
       \<and> (p \<noteq> user_home h \<and> \<not> path_exists h p
            \<and> (\<forall>name \<in> set ROOT_FILES. path_exists h (path_join h [p, name]) \<longrightarrow> path_exists h p)
          \<longrightarrow> \<not> fst (is_project_root h cache p))"
  using is_project_root_fst[OF assms, of p]
  by (auto simp: is_project_root_body_def root_files_loop_iff)

theorem C7_is_project_root_witness:
  "cache_ok home_host []
   \<and> fst (is_project_root home_host [] ''/home/u'')
   \<and> \<not> fst (is_project_root home_host [] ''/nowhere'')
   \<and> cache_ok walk_host [(''/w'', False)]
   \<and> fst (is_project_root walk_host [(''/w'', False)] ''/w/app'')
   \<and> \<not> fst (is_project_root walk_host [(''/w'', False)] ''/w/app/src'')"
proof -
  have ok': "cache_ok walk_host [(''/w'', False)]"
    by (simp add: cache_ok_def is_project_root_body_def ROOT_FILES_def walk_host_def posix_simps)
  have c: "fst (is_project_root walk_host [(''/w'', False)] ''/w/app'')"
    using C7_is_project_root[OF ok', of "''/w/app''"]
    by (simp add: walk_host_def posix_simps ROOT_FILES_def)
  have d: "\<not> fst (is_project_root walk_host [(''/w'', False)] ''/w/app/src'')"
    using C7_is_project_root[OF ok', of "''/w/app/src''"]
    by (simp add: walk_host_def posix_simps ROOT_FILES_def)
  have ok: "cache_ok home_host []" by (simp add: cache_ok_def)
  have a: "fst (is_project_root home_host [] ''/home/u'')"
    using C7_is_project_root[OF ok, of "''/home/u''"] by (simp add: home_host_def posix_host_def)
  have b: "\<not> fst (is_project_root home_host [] ''/nowhere'')"
    using C7_is_project_root[OF ok, of "''/nowhere''"]
    by (simp add: home_host_def posix_simps ROOT_FILES_def)
  from ok a b ok' c d show ?thesis by simp
qed

text \<open>
  C8. \<^verbatim>\<open>_find_venv\<close> returns on every input. A start path that does not exist gives no
  result at once, the cache untouched. The body of the loop runs at most once more than
  the depth of the start path (the number of its parents), which is at most the length of
  the path. At a directory without environment that is no project root, the loop returns
  no result as soon as the parent is not strictly shorter or is the user's home directory.
\<close>

theorem C8_find_venv_terminates:
  "(\<not> lexists h start \<longrightarrow> find_venv h cache start = (None, cache))
   \<and> find_venv_fuel (Suc (depth h start)) h cache start = Some (find_venv_loop h cache start)
   \<and> depth h start \<le> length start
   \<and> (venv_path h root ''venv'' = None \<and> \<not> fst (is_project_root h cache root)
        \<and> (length (dirname h root) \<ge> length root \<or> dirname h root = user_home h)
      \<longrightarrow> find_venv_loop h cache root = (None, snd (is_project_root h cache root)))"
proof -
  have a: "\<not> lexists h start \<longrightarrow> find_venv h cache start = (None, cache)"
    by (simp add: find_venv_def)
  have b: "find_venv_fuel (Suc (depth h start)) h cache start = Some (find_venv_loop h cache start)"
    by (rule find_venv_fuel_enough) simp
  have c: "venv_path h root ''venv'' = None \<and> \<not> fst (is_project_root h cache root)
        \<and> (length (dirname h root) \<ge> length root \<or> dirname h root = user_home h)
      \<longrightarrow> find_venv_loop h cache root = (None, snd (is_project_root h cache root))"
    by (subst find_venv_loop.simps) (auto simp: Let_def)
  from a b c depth_le_length[of h start] show ?thesis by blast
qed

theorem C8_find_venv_terminates_witness:
  "\<not> lexists home_host ''/nowhere'' \<and> find_venv home_host [] ''/nowhere'' = (None, [])
   \<and> depth home_host ''/home/u/x'' = 3
   \<and> find_venv_fuel 4 home_host [] ''/home/u/x'' = Some (find_venv_loop home_host [] ''/home/u/x'')
   \<and> dirname home_host ''/home/u/x'' = user_home home_host
   \<and> find_venv_loop home_host [] ''/home/u/x'' = (None, [(''/home/u/x'', False)])"
proof -
  have n: "\<not> lexists home_host ''/nowhere''" by (simp add: home_host_def posix_host_def)
  have d: "depth home_host ''/home/u/x'' = 3"
    by (simp add: depth_def parents.simps home_host_def posix_simps)
  have p: "dirname home_host ''/home/u/x'' = user_home home_host"
    by (simp add: home_host_def posix_simps)
  have v: "venv_path home_host ''/home/u/x'' ''venv'' = None"
    by (simp add: walk_simps home_host_def posix_simps)
  have r: "is_project_root home_host [] ''/home/u/x'' = (False, [(''/home/u/x'', False)])"
    by (simp add: walk_simps home_host_def posix_simps)
  have s4: "Suc 3 = 4" by simp
  note t = C8_find_venv_terminates[of home_host _ "[]" "''/home/u/x''"]
  have 1: "find_venv home_host [] ''/nowhere'' = (None, [])"
    using t[of "''/nowhere''", THEN conjunct1] n by (rule mp)
  have "find_venv_fuel (Suc (depth home_host ''/home/u/x'')) home_host [] ''/home/u/x'' =
      Some (find_venv_loop home_host [] ''/home/u/x'')"
    by (rule t[of "''/home/u/x''", THEN conjunct2, THEN conjunct1])
  then have 2: "find_venv_fuel 4 home_host [] ''/home/u/x'' =
      Some (find_venv_loop home_host [] ''/home/u/x'')"
    unfolding d s4 .
  have "find_venv_loop home_host [] ''/home/u/x'' =
      (None, snd (is_project_root home_host [] ''/home/u/x''))"
    using t[of "''/home/u/x''", THEN conjunct2, THEN conjunct2, THEN conjunct2] v r p
    by (simp only: fst_conv simp_thms)
  then have 3: "find_venv_loop home_host [] ''/home/u/x'' = (None, [(''/home/u/x'', False)])"
    unfolding r by simp
  from n 1 d 2 p 3 show ?thesis by (intro conjI)
qed

text \<open>
  C9, as amended. When the \<^verbatim>\<open>Packages\<close> path is an element of the module search path
  after the rewriting of the version, \<^verbatim>\<open>find_package_dependency_dirs\<close> returns a list, and
  every element of the list is a directory.
\<close>

theorem C9_dependency_dirs:
  assumes "packages_path h \<in>
     set (map (re_sub (if py_ver = (3, 8) then CHR ''8'' else CHR ''3'')) (sys_path h))"
  shows "\<exists>dirs. find_package_dependency_dirs h py_ver = Inr dirs \<and> (\<forall>d \<in> set dirs. isdir h d)"
  using assms by (simp add: find_package_dependency_dirs_def Let_def)

theorem C9_dependency_dirs_witness:
  "packages_path dep_host \<in> set (map (re_sub CHR ''8'') (sys_path dep_host))
   \<and> find_package_dependency_dirs dep_host (3, 8) =
       Inr [''/Storage/resources/typings/sublime_text'', ''/opt/st/Lib/python3.8'', ''/Packages'']
   \<and> isdir dep_host ''/Storage/resources/typings/sublime_text''
   \<and> isdir dep_host ''/opt/st/Lib/python3.8'' \<and> isdir dep_host ''/Packages''"
proof -
  have m: "map (re_sub CHR ''8'') (sys_path dep_host) =
      [''/opt/st/Lib/python3.8'', ''/Packages'', ''/opt/st/Lib/python38/site-packages'']"
    by (simp add: dep_host_def posix_host_def re_simps)
  have a: "packages_path dep_host \<in>
      set (map (re_sub (if (3, 8) = (3 :: int, 8 :: int) then CHR ''8'' else CHR ''3'')) (sys_path dep_host))"
    using m by (simp add: dep_host_def posix_host_def)
  from C9_dependency_dirs[OF a] obtain dirs where
    d: "find_package_dependency_dirs dep_host (3, 8) = Inr dirs" and i: "\<forall>d \<in> set dirs. isdir dep_host d"
    by blast
  have e: "find_package_dependency_dirs dep_host (3, 8) =
       Inr [''/Storage/resources/typings/sublime_text'', ''/opt/st/Lib/python3.8'', ''/Packages'']"
    unfolding find_package_dependency_dirs_def Let_def
    using m by (simp add: dep_host_def posix_simps)
  with d have "dirs = [''/Storage/resources/typings/sublime_text'', ''/opt/st/Lib/python3.8'', ''/Packages'']"
    by simp
  with i have "isdir dep_host ''/Storage/resources/typings/sublime_text''
   \<and> isdir dep_host ''/opt/st/Lib/python3.8'' \<and> isdir dep_host ''/Packages''" by simp
  with a e show ?thesis by simp
qed

text \<open>
  C9 as the specification states it fails: \<^verbatim>\<open>dep_dirs.remove(packages_path)\<close> raises
  \<^verbatim>\<open>ValueError\<close> for a search path that does not hold the \<^verbatim>\<open>Packages\<close> path.
\<close>

theorem C9_dependency_dirs_counterexample:
  "find_package_dependency_dirs (dep_host\<lparr>sys_path := [''/opt/st/Lib/python3.3'']\<rparr>) (3, 8) =
     Inl ValueError"
  by (simp add: find_package_dependency_dirs_def dep_host_def posix_host_def re_simps)

text \<open>The rewriting applies to the \<^verbatim>\<open>Packages\<close> path too: a path with \<^verbatim>\<open>python38\<close> in it
  is in the search path before the rewriting for Python 3.3 and not after it.\<close>

lemma packages_path_rewritten_away:
  "find_package_dependency_dirs
     (dep_host\<lparr>sys_path := [''/opt/python38/Packages''], packages_path := ''/opt/python38/Packages''\<rparr>)
     (3, 3) = Inl ValueError"
  by (simp add: find_package_dependency_dirs_def dep_host_def posix_host_def re_simps)

text \<open>
  C10. Two non-empty lists of workspace folders whose first folders have the same path
  give the same result and the same events, for the same settings on the same host: the
  folders after the first, and the name of the first, have no influence.
\<close>

theorem C10_first_folder_only:
  assumes "path f = path f'"
  shows "resolve_python_path_from_venv h settings (f # fs) =
         resolve_python_path_from_venv h settings (f' # fs')"
  using assms by (simp add: resolve_python_path_from_venv_def Let_def)

theorem C10_first_folder_only_witness:
  "path \<lparr>name = ''proj'', path = ''/proj''\<rparr> = path \<lparr>name = ''other'', path = ''/proj''\<rparr>
   \<and> resolve_python_path_from_venv listing_host Map.empty
         [\<lparr>name = ''proj'', path = ''/proj''\<rparr>, \<lparr>name = ''src'', path = ''/w/app/src''\<rparr>]
     = resolve_python_path_from_venv listing_host Map.empty
         [\<lparr>name = ''other'', path = ''/proj''\<rparr>]
   \<and> resolve_python_path_from_venv listing_host Map.empty
         [\<lparr>name = ''other'', path = ''/proj''\<rparr>]
     = ([], Inr (Some ''/proj/env39/bin/python''))"
proof -
  have e: "path \<lparr>name = ''proj'', path = ''/proj''\<rparr> = path \<lparr>name = ''other'', path = ''/proj''\<rparr>"
    by simp
  have r: "resolve_python_path_from_venv listing_host Map.empty
         [\<lparr>name = ''other'', path = ''/proj''\<rparr>]
     = ([], Inr (Some ''/proj/env39/bin/python''))"
    by (simp add: resolver_simps listing_host_def posix_simps)
  from e C10_first_folder_only[OF e] r show ?thesis by blast
qed

end
